theory Spec2Isabelle
  imports Complex_Main "HOL-Library.Sublist"
begin

section \<open>The rate-limited scheduler (class RequestQueue)\<close>

text \<open>
  The fields of the class are \<open>queue\<close>, \<open>activeCount\<close>, \<open>maxConcurrency\<close>, \<open>minDelay\<close>
  and \<open>lastRequestTime\<close>. A pending task is identified by its submission number.
  \<open>maxConcurrency\<close> and \<open>minDelay\<close> hold what the constructor stored for
  \<open>Math.min(6, Math.ceil(rpm / 10) + 1)\<close> and \<open>60000 / rpm\<close>, the second a double and so a
  rational; clock readings are whole milliseconds.
\<close>

record RequestQueue =
  queue :: "nat list"
  activeCount :: int
  maxConcurrency :: int
  minDelay :: rat
  lastRequestTime :: int

text \<open>
  The environment of the queue: the clock behind \<open>Date.now()\<close> (its last reading and the
  increments of the readings still to come, a missing increment being 0, so the clock
  never runs backwards), the number of armed \<open>setTimeout\<close> callbacks, and two observation
  fields that the class does not have: the tasks that were started and have not settled
  (\<open>running\<close>) and the timestamps stored at each dispatch, newest first (\<open>dispatchLog\<close>).
\<close>

record world = RequestQueue +
  clock :: int
  ticks :: "nat list"
  timers :: nat
  submitted :: nat
  running :: "nat list"
  dispatchLog :: "int list"

definition dateNow :: "world \<Rightarrow> int \<times> world" where
  "dateNow w =
     (case ticks w of
        [] \<Rightarrow> (clock w, w)
      | d # ds \<Rightarrow> (clock w + int d, w\<lparr>clock := clock w + int d, ticks := ds\<rparr>))"

text \<open>
  \<open>process()\<close>. The call \<open>fn()\<close> starts the task: the wrapper built by \<open>add\<close> runs the
  task up to its first \<open>await\<close> and returns, so the task is recorded as running; the
  \<open>finally\<close> block of the wrapper runs in a later callback, the event \<open>Complete\<close> below.
  (The tasks are asynchronous functions that do not touch the queue while they start,
  as all tasks of the repository are.)
\<close>

function process :: "world \<Rightarrow> world" where
  "process w =
     (if queue w = [] then w
      else
        let (now, w1) = dateNow w;
            timeSinceLast = now - lastRequestTime w1;
            wait = max 0 (minDelay w1 - of_int timeSinceLast)
        in if activeCount w1 < maxConcurrency w1 \<and> wait = 0 then
             (case queue w1 of
                [] \<Rightarrow> w1
              | fn # rest \<Rightarrow>
                  (let w2 = w1\<lparr>queue := rest\<rparr>;
                       w3 = w2\<lparr>activeCount := activeCount w2 + 1\<rparr>;
                       (t, w4) = dateNow w3;
                       w5 = w4\<lparr>lastRequestTime := t\<rparr>;
                       w6 = w5\<lparr>running := fn # running w5, dispatchLog := t # dispatchLog w5\<rparr>
                   in process w6))
           else if activeCount w1 < maxConcurrency w1 then w1\<lparr>timers := Suc (timers w1)\<rparr>
           else w1)"
  by pat_completeness auto
termination
  by (relation "measure (\<lambda>w. length (queue w))")
     (auto simp: dateNow_def split: list.splits prod.splits)

declare process.simps [simp del]

text \<open>\<open>add(fn)\<close>: push the wrapped task, then \<open>process()\<close>.\<close>

definition add :: "world \<Rightarrow> world" where
  "add w = process (w\<lparr>queue := queue w @ [submitted w], submitted := Suc (submitted w)\<rparr>)"

text \<open>The \<open>finally\<close> block of the wrapper of a running task: \<open>activeCount--\<close>, \<open>process()\<close>.\<close>

definition settle :: "nat \<Rightarrow> world \<Rightarrow> world" where
  "settle i w =
     (if i \<in> set (running w)
      then process (w\<lparr>activeCount := activeCount w - 1, running := remove1 i (running w)\<rparr>)
      else w)"

text \<open>An armed timer fires and calls \<open>process()\<close>.\<close>

definition timerFired :: "world \<Rightarrow> world" where
  "timerFired w = (if timers w = 0 then w else process (w\<lparr>timers := timers w - 1\<rparr>))"

text \<open>\<open>clear()\<close>: two assignments.\<close>

definition clear :: "world \<Rightarrow> world" where
  "clear w = w\<lparr>queue := [], activeCount := 0\<rparr>"

text \<open>
  What the event loop does to the queue: a submission, the settling of a running task, or
  a timer; each callback comes with the clock increments of its \<open>Date.now()\<close> readings.
\<close>

datatype callback = Add "nat list" | Complete nat "nat list" | Timer "nat list"

fun handle :: "world \<Rightarrow> callback \<Rightarrow> world" where
  "handle w (Add ds) = add (w\<lparr>ticks := ds\<rparr>)"
| "handle w (Complete i ds) = settle i (w\<lparr>ticks := ds\<rparr>)"
| "handle w (Timer ds) = timerFired (w\<lparr>ticks := ds\<rparr>)"

definition newQueue :: "int \<Rightarrow> rat \<Rightarrow> int \<Rightarrow> world" where
  "newQueue c d t0 =
     \<lparr>queue = [], activeCount = 0, maxConcurrency = c, minDelay = d, lastRequestTime = 0,
      clock = t0, ticks = [], timers = 0, submitted = 0, running = [], dispatchLog = []\<rparr>"

definition run :: "int \<Rightarrow> rat \<Rightarrow> int \<Rightarrow> callback list \<Rightarrow> world" where
  "run c d t0 evs = foldl handle (newQueue c d t0) evs"

text \<open>Consecutive entries of a dispatch log (newest first) are at least \<open>d\<close> apart.\<close>

fun spaced :: "rat \<Rightarrow> int list \<Rightarrow> bool" where
  "spaced d (a # b # ts) = (d \<le> of_int (a - b) \<and> spaced d (b # ts))"
| "spaced d _ = True"

text \<open>
  The invariant of the queue between callbacks: \<open>activeCount\<close> counts the running
  tasks and stays within the cap, the dispatch log is spaced by \<open>minDelay\<close>, and its
  newest entry is \<open>lastRequestTime\<close>.
\<close>

definition sched_inv :: "int \<Rightarrow> rat \<Rightarrow> world \<Rightarrow> bool" where
  "sched_inv c d w \<longleftrightarrow>
     maxConcurrency w = c \<and> minDelay w = d \<and>
     activeCount w = int (length (running w)) \<and>
     activeCount w \<le> max 0 (maxConcurrency w) \<and>
     spaced (minDelay w) (dispatchLog w) \<and>
     (dispatchLog w \<noteq> [] \<longrightarrow> hd (dispatchLog w) = lastRequestTime w)"

section \<open>The worker: record store, inverted index, filters and summary\<close>

text \<open>
  Strings are lists of characters; the model covers ASCII text, on which
  \<open>toLowerCase\<close> and \<open>trim\<close> are as below. A JavaScript object used as a dictionary is a
  finite map of its own properties. A cell of a stored row is absent (\<open>undefined\<close>),
  \<open>null\<close> or a string.
\<close>

datatype jsval = Null | Str string

type_synonym row = "string \<rightharpoonup> jsval"

datatype error = TypeError

definition lowerChar :: "char \<Rightarrow> char" where
  "lowerChar c =
     (case map_of (zip ''ABCDEFGHIJKLMNOPQRSTUVWXYZ'' ''abcdefghijklmnopqrstuvwxyz'') c of
        Some l \<Rightarrow> l
      | None \<Rightarrow> c)"

definition toLowerCase :: "string \<Rightarrow> string" where
  "toLowerCase s = map lowerChar s"

definition isSpace :: "char \<Rightarrow> bool" where
  "isSpace c = ((of_char c :: nat) \<in> {9, 10, 11, 12, 13, 32})"

definition trim :: "string \<Rightarrow> string" where
  "trim s = rev (dropWhile isSpace (rev (dropWhile isSpace s)))"

text \<open>
  \<open>s.split(sep)\<close> for a non-empty separator: \<open>skip\<close> counts the characters of a separator
  just matched that are still to be passed over, \<open>cur\<close> is the current piece, reversed.
\<close>

fun splitAux :: "string \<Rightarrow> nat \<Rightarrow> string \<Rightarrow> string \<Rightarrow> string list" where
  "splitAux sep skip cur [] = [rev cur]"
| "splitAux sep skip cur (c # cs) =
     (if 0 < skip then splitAux sep (skip - 1) cur cs
      else if prefix sep (c # cs) then rev cur # splitAux sep (length sep - 1) [] cs
      else splitAux sep 0 (c # cur) cs)"

definition splitStr :: "string \<Rightarrow> string \<Rightarrow> string list" where
  "splitStr sep s = splitAux sep 0 [] s"

text \<open>An insertion-ordered \<open>Set\<close> of strings: \<open>add\<close> appends a new element only.\<close>

definition setAdd :: "string list \<Rightarrow> string \<Rightarrow> string list" where
  "setAdd xs x = (if x \<in> set xs then xs else xs @ [x])"

definition standardHeaders :: "string list" where
  "standardHeaders =
     [''conversation id'', ''domain'', ''created'', ''ended'', ''finished'', ''status'',
      ''channel'', ''primary agent email'', ''primary agent handle time'',
      ''primary agent answer speed'', ''pickup sla violation'', ''escalated'',
      ''escalation queue'', ''escalation reason'', ''abandoned'', ''amelia handled'',
      ''amelia abandoned'', ''agent handled'', ''agent abandoned'', ''escalate abandoned'',
      ''total handle time'', ''executed bpns'', ''user name'', ''user email'',
      ''user external uid'', ''disconnect wait time'', ''after conversation time'',
      ''after conversation violation'', ''resolution codes'', ''custom metrics'',
      ''transcript'']"

subsection \<open>parseDate\<close>

definition isDigit :: "char \<Rightarrow> bool" where
  "isDigit c = (48 \<le> (of_char c :: nat) \<and> (of_char c :: nat) \<le> 57)"

definition digitsVal :: "string \<Rightarrow> int" where
  "digitsVal s = foldl (\<lambda>a c. a * 10 + (int (of_char c) - 48)) 0 s"

text \<open>
  The regular expression \<open>(\d{4})-(\d{2})-(\d{2})[T ](\d{2}):(\d{2})\<close> at the start of a
  string; it is unanchored, so \<open>searchDate\<close> takes the leftmost match.
\<close>

definition matchDate :: "string \<Rightarrow> (int \<times> int \<times> int \<times> int \<times> int) option" where
  "matchDate s =
     (if 16 \<le> length s \<and>
         list_all isDigit (take 4 s) \<and> s ! 4 = CHR ''-'' \<and>
         list_all isDigit (take 2 (drop 5 s)) \<and> s ! 7 = CHR ''-'' \<and>
         list_all isDigit (take 2 (drop 8 s)) \<and> (s ! 10 = CHR ''T'' \<or> s ! 10 = CHR '' '') \<and>
         list_all isDigit (take 2 (drop 11 s)) \<and> s ! 13 = CHR '':'' \<and>
         list_all isDigit (take 2 (drop 14 s))
      then Some (digitsVal (take 4 s), digitsVal (take 2 (drop 5 s)),
                 digitsVal (take 2 (drop 8 s)), digitsVal (take 2 (drop 11 s)),
                 digitsVal (take 2 (drop 14 s)))
      else None)"

fun searchDate :: "string \<Rightarrow> (int \<times> int \<times> int \<times> int \<times> int) option" where
  "searchDate [] = None"
| "searchDate (c # cs) =
     (case matchDate (c # cs) of Some r \<Rightarrow> Some r | None \<Rightarrow> searchDate cs)"

text \<open>
  \<open>Date.UTC(year, month, date, hours, minutes)\<close> in milliseconds, for integer arguments:
  a year from 0 to 99 means 1900 + year, a month outside 0..11 carries into the year,
  and the day of the month, the hours and the minutes are added as they are.
\<close>

definition daysFromYearMonth :: "int \<Rightarrow> int \<Rightarrow> int" where
  "daysFromYearMonth ym mn =
     (let y = (if mn < 2 then ym - 1 else ym);
          era = y div 400;
          yoe = y mod 400;
          mp = (mn + 10) mod 12;
          doy = (153 * mp + 2) div 5;
          doe = yoe * 365 + yoe div 4 - yoe div 100 + doy
      in era * 146097 + doe - 719468)"

definition dateUTC :: "int \<Rightarrow> int \<Rightarrow> int \<Rightarrow> int \<Rightarrow> int \<Rightarrow> int" where
  "dateUTC year month date hours minutes =
     (let yr = (if 0 \<le> year \<and> year \<le> 99 then 1900 + year else year);
          day = daysFromYearMonth (yr + month div 12) (month mod 12) + date - 1
      in day * 86400000 + hours * 3600000 + minutes * 60000)"

text \<open>
  \<open>parseDate\<close> of a cell; the result is \<open>getTime()\<close> of the date, \<open>None\<close> is \<open>null\<close>.
  \<open>Date.UTC\<close> of five integers in the range of the pattern is never \<open>NaN\<close>.
\<close>

definition parseDate :: "jsval option \<Rightarrow> int option" where
  "parseDate dateString =
     (case dateString of
        Some (Str s) \<Rightarrow>
          (if s = [] then None
           else case searchDate s of
                  None \<Rightarrow> None
                | Some (y, mo, d, h, mi) \<Rightarrow> Some (dateUTC y (mo - 1) d h mi))
      | _ \<Rightarrow> None)"


subsection \<open>Ingestion: the \<open>step\<close> callback\<close>

text \<open>
  The module state of the worker. Of \<open>aggregators\<close> the fields \<open>totalRows\<close> and
  \<open>totalContained\<close> are kept; the handle-time sums take no part in what follows.
  \<open>rowIndex\<close> is the local counter of the parse handler.
\<close>

record worker =
  rawDataStore :: "row list"
  filterIndexes :: "string \<rightharpoonup> (string \<rightharpoonup> nat list)"
  totalRows :: nat
  totalContained :: nat
  headers :: "string list"
  customMetricKeys :: "string list"
  rowIndex :: nat

definition newWorker :: "string list \<Rightarrow> worker" where
  "newWorker hs =
     \<lparr>rawDataStore = [], filterIndexes = Map.empty, totalRows = 0, totalContained = 0,
      headers = hs, customMetricKeys = [], rowIndex = 0\<rparr>"

text \<open>The body of \<open>customMetricsRaw.split('||').forEach\<close>, on the row and the key set.\<close>

definition expandMetric :: "row \<times> string list \<Rightarrow> string \<Rightarrow> row \<times> string list" where
  "expandMetric acc metric =
     (case splitStr ''='' metric of
        [] \<Rightarrow> acc
      | key # rest \<Rightarrow>
          (let value = (case rest of [] \<Rightarrow> None | v # _ \<Rightarrow> Some v);
               (processedRow, keys) = acc
           in if key \<noteq> [] then
                (let trimmedKey0 = trim key;
                     lowerTrimmedKey0 = toLowerCase trimmedKey0;
                     trimmedKey = (if lowerTrimmedKey0 \<in> set standardHeaders
                                   then trimmedKey0 @ ''_Custom'' else trimmedKey0);
                     lowerTrimmedKey = (if lowerTrimmedKey0 \<in> set standardHeaders
                                        then toLowerCase trimmedKey else lowerTrimmedKey0)
                 in (processedRow(lowerTrimmedKey \<mapsto>
                        (case value of
                           None \<Rightarrow> Null
                         | Some v \<Rightarrow> if v \<noteq> [] then Str (trim v) else Null)),
                     setAdd keys trimmedKey))
              else acc))"

text \<open>The body of \<open>for (const header of allKeysForIndexing)\<close>.\<close>

definition indexHeader ::
  "row \<Rightarrow> nat \<Rightarrow> (string \<rightharpoonup> (string \<rightharpoonup> nat list)) \<Rightarrow> string \<Rightarrow> (string \<rightharpoonup> (string \<rightharpoonup> nat list))" where
  "indexHeader processedRow ri fi header =
     (let cleanHeader = trim header;
          lowerHeader = toLowerCase cleanHeader
      in case processedRow lowerHeader of
           Some (Str v) \<Rightarrow>
             (if v \<noteq> [] then
                (let m = (case fi cleanHeader of None \<Rightarrow> Map.empty | Some m \<Rightarrow> m);
                     l = (case m v of None \<Rightarrow> [] | Some l \<Rightarrow> l)
                 in fi(cleanHeader \<mapsto> m(v \<mapsto> l @ [ri])))
              else fi)
         | _ \<Rightarrow> fi)"

text \<open>
  \<open>step\<close>: \<open>data\<close> is the parsed record, its cells in column order; \<open>lowerKeys\<close> is the
  loop \<open>for (const key in row) processedRow[key.trim().toLowerCase()] = row[key]\<close>.
\<close>

definition lowerKeys :: "(string \<times> string) list \<Rightarrow> row" where
  "lowerKeys data = foldl (\<lambda>r (key, v). r(toLowerCase (trim key) \<mapsto> Str v)) Map.empty data"

definition step :: "worker \<Rightarrow> (string \<times> string) list \<Rightarrow> worker" where
  "step w data =
     (let processedRow0 = lowerKeys data;
          customMetricsRaw = (case processedRow0 ''custom metrics'' of Some (Str s) \<Rightarrow> s | _ \<Rightarrow> []);
          (processedRow, keys) =
             (if customMetricsRaw \<noteq> []
              then foldl expandMetric (processedRow0, customMetricKeys w) (splitStr ''||'' customMetricsRaw)
              else (processedRow0, customMetricKeys w));
          allKeysForIndexing = foldl setAdd [] (headers w @ keys)
      in w\<lparr>rawDataStore := rawDataStore w @ [processedRow],
            totalRows := totalRows w + 1,
            totalContained := (if processedRow ''amelia handled'' = Some (Str ''true'')
                               then totalContained w + 1 else totalContained w),
            customMetricKeys := keys,
            filterIndexes := foldl (indexHeader processedRow (rowIndex w)) (filterIndexes w) allKeysForIndexing,
            rowIndex := rowIndex w + 1\<rparr>)"

text \<open>A loaded dataset: the header line \<open>hs\<close> and every record passed to \<open>step\<close>.\<close>

definition ingest :: "string list \<Rightarrow> (string \<times> string) list list \<Rightarrow> worker" where
  "ingest hs records = foldl step (newWorker hs) records"

subsection \<open>applyFilters\<close>




definition after :: "int \<Rightarrow> int option option \<Rightarrow> bool" where
  "after t b = (case b of Some (Some x) \<Rightarrow> x < t | _ \<Rightarrow> False)"











subsection \<open>calculateSummary\<close>

text \<open>
  \<open>parseDate\<close> keeps the minute, so every timestamp is a whole number of minutes and
  \<open>(endTime - startTime) / (1000 * 60)\<close> is an integer, as is every partial sum of
  \<open>totalHandleTimeMinutes\<close>: the floating-point sums are exact and are modelled by
  rationals. \<open>avgConcurrency\<close> is the exact quotient, of which the program holds the
  nearest double. \<open>firstEventTime\<close> and \<open>lastEventTime\<close> start as \<open>Infinity\<close> and
  \<open>-Infinity\<close>, here \<open>None\<close>. The field \<open>timeRange\<close> is the pair of the two instants that
  the program formats with \<open>toLocaleDateString\<close>, \<open>None\<close> for \<open>'N/A'\<close>.
\<close>

datatype etype = Start | End

datatype sweepEvent = Event (time: int) (etype: etype)

record summary =
  peakConcurrency :: int
  avgConcurrency :: rat
  timeRange :: "(int \<times> int) option"

record collected =
  events :: "sweepEvent list"
  totalHandleTimeMinutes :: rat
  firstEventTime :: "int option"
  lastEventTime :: "int option"

definition collectRow :: "collected \<Rightarrow> row \<Rightarrow> collected" where
  "collectRow a r =
     (case (parseDate (r ''created''), parseDate (r ''finished'')) of
        (Some startTime, Some endTime) \<Rightarrow>
          \<lparr>events = events a @ [Event startTime Start, Event endTime End],
           totalHandleTimeMinutes = totalHandleTimeMinutes a + of_int (endTime - startTime) / (1000 * 60),
           firstEventTime = (case firstEventTime a of
                               None \<Rightarrow> Some startTime
                             | Some f \<Rightarrow> if startTime < f then Some startTime else Some f),
           lastEventTime = (case lastEventTime a of
                              None \<Rightarrow> Some endTime
                            | Some l \<Rightarrow> if l < endTime then Some endTime else Some l)\<rparr>
      | _ \<Rightarrow> a)"

text \<open>\<open>rowIndexes.forEach\<close>; reading a field of a row that is not in the store raises.\<close>

fun collectRows :: "worker \<Rightarrow> collected \<Rightarrow> nat list \<Rightarrow> error + collected" where
  "collectRows w a [] = Inr a"
| "collectRows w a (i # is) =
     (if i < length (rawDataStore w) then collectRows w (collectRow a (rawDataStore w ! i)) is
      else Inl TypeError)"

definition noEvents :: collected where
  "noEvents = \<lparr>events = [], totalHandleTimeMinutes = 0, firstEventTime = None, lastEventTime = None\<rparr>"

text \<open>\<open>events.sort((a, b) => a.time - b.time)\<close>: a stable sort by time.\<close>

definition sortEvents :: "sweepEvent list \<Rightarrow> sweepEvent list" where
  "sortEvents evs = sort_key time evs"

text \<open>The body of the sweep loop on the pair (maxConcurrency, currentConcurrency).\<close>

definition sweepStep :: "int \<times> int \<Rightarrow> sweepEvent \<Rightarrow> int \<times> int" where
  "sweepStep s ev =
     (let (maxConcurrency, currentConcurrency) = s
      in if etype ev = Start then
           (let c = currentConcurrency + 1
            in (if maxConcurrency < c then c else maxConcurrency, c))
         else (maxConcurrency, currentConcurrency - 1))"




text \<open>
  What the sweep loop goes through: the sorted events of a row-id list, and the values
  that \<open>currentConcurrency\<close> takes after each of them.
\<close>

definition sweepEvents :: "worker \<Rightarrow> nat list \<Rightarrow> error + sweepEvent list" where
  "sweepEvents w rowIndexes =
     (case collectRows w noEvents rowIndexes of
        Inl e \<Rightarrow> Inl e
      | Inr a \<Rightarrow> Inr (sortEvents (events a)))"

fun counters :: "int \<Rightarrow> sweepEvent list \<Rightarrow> int list" where
  "counters c [] = []"
| "counters c (ev # evs) =
     (let c' = snd (sweepStep (c, c) ev) in c' # counters c' evs)"

text \<open>
  The tie-break rule of the specification, as a check on an event list: no end event is
  followed, at the same instant, by a start event.
\<close>

fun startsBeforeEnds :: "sweepEvent list \<Rightarrow> bool" where
  "startsBeforeEnds [] = True"
| "startsBeforeEnds (ev # evs) =
     ((etype ev = End \<longrightarrow> list_all (\<lambda>e. \<not> (time e = time ev \<and> etype e = Start)) evs)
      \<and> startsBeforeEnds evs)"

text \<open>A stored row whose two timestamps parse has them in order.\<close>

definition inOrder :: "worker \<Rightarrow> nat \<Rightarrow> bool" where
  "inOrder w i =
     (case (parseDate ((rawDataStore w ! i) ''created''), parseDate ((rawDataStore w ! i) ''finished'')) of
        (Some s, Some e) \<Rightarrow> s \<le> e
      | _ \<Rightarrow> True)"

text \<open>The events that one row of the list adds, in the order in which they are pushed.\<close>

definition rowEvents :: "worker \<Rightarrow> nat \<Rightarrow> sweepEvent list" where
  "rowEvents w i =
     (case (parseDate ((rawDataStore w ! i) ''created''), parseDate ((rawDataStore w ! i) ''finished'')) of
        (Some s, Some e) \<Rightarrow> [Event s Start, Event e End]
      | _ \<Rightarrow> [])"

text \<open>What an event adds to the running counter.\<close>

definition delta :: "sweepEvent \<Rightarrow> int" where
  "delta ev = (if etype ev = Start then 1 else - 1)"




text \<open>
  A dataset with the two timestamp columns only, one record for each pair
  (created, finished).
\<close>

definition timed :: "(string \<times> string) list \<Rightarrow> worker" where
  "timed xs =
     ingest [''Created'', ''Finished'']
       (map (\<lambda>(c, f). [(''Created'', c), (''Finished'', f)]) xs)"

section \<open>The map-reduce summarizer (generateSummary)\<close>

text \<open>
  A per-row result carries \<open>insight\<close>, here the text \<open>JSON.stringify\<close> gives for it
  (\<open>None\<close> is \<open>null\<close>), and \<open>error\<close>. The inference client is the parameter \<open>gemini\<close>: it
  answers a call with a text (\<open>Inr\<close>) or throws an error with a message (\<open>Inl\<close>);
  \<open>jsonOk t\<close> says that \<open>safeJsonParse t\<close> is truthy. The scheduler runs every task it
  is given; the result lists the calls made, in submission order, and what
  \<open>setSummary\<close> received.
\<close>

record analysisResult =
  insight :: "string option"
  error :: "string option"

datatype call = BatchCall nat nat string | FinalCall nat string

datatype outcome = NoSummary | Summary string | Failed string

definition BATCH_SIZE :: nat where
  "BATCH_SIZE = 25"

definition valid :: "analysisResult \<Rightarrow> bool" where
  "valid r = (insight r \<noteq> None \<and> (error r = None \<or> error r = Some []))"

definition stringify :: "analysisResult \<Rightarrow> string" where
  "stringify r = (case insight r of None \<Rightarrow> ''null'' | Some s \<Rightarrow> s)"

fun join :: "string \<Rightarrow> string list \<Rightarrow> string" where
  "join sep [] = []"
| "join sep [x] = x"
| "join sep (x # y # ys) = x @ sep @ join sep (y # ys)"

text \<open>\<open>for (let i = 0; i < xs.length; i += n) batches.push(xs.slice(i, i + n))\<close>\<close>

function batchesOf :: "nat \<Rightarrow> 'a list \<Rightarrow> 'a list list" where
  "batchesOf n xs =
     (if n = 0 \<or> xs = [] then [] else take n xs # batchesOf n (drop n xs))"
  by pat_completeness auto
termination
  by (relation "measure (\<lambda>(n, xs). length xs)") auto

declare batchesOf.simps [simp del]

fun isFinal :: "call \<Rightarrow> bool" where
  "isFinal (FinalCall n t) = True"
| "isFinal (BatchCall i n t) = False"

definition batchCall :: "nat \<times> analysisResult list \<Rightarrow> call" where
  "batchCall ib = (case ib of (index, batch) \<Rightarrow>
     BatchCall index (length batch) (join [CHR 0x0A] (map stringify batch)))"

definition successful :: "(string \<Rightarrow> bool) \<Rightarrow> string + string \<Rightarrow> bool" where
  "successful jsonOk r = (case r of Inl _ \<Rightarrow> False | Inr t \<Rightarrow> jsonOk t)"

definition replyText :: "string + string \<Rightarrow> string" where
  "replyText r = (case r of Inl _ \<Rightarrow> [] | Inr t \<Rightarrow> t)"

definition generateSummary ::
  "(string \<Rightarrow> bool) \<Rightarrow> (call \<Rightarrow> string + string) \<Rightarrow> analysisResult list \<Rightarrow> call list \<times> outcome" where
  "generateSummary jsonOk gemini results =
     (let validResults = filter valid results
      in if validResults = [] then ([], NoSummary)
         else
           (let (batchCalls, finalInputForSummary) =
                  (if length validResults \<le> BATCH_SIZE
                   then ([], join [CHR 0x0A, CHR 0x0A] (map stringify validResults))
                   else
                     (let batches = batchesOf BATCH_SIZE validResults;
                          calls = map batchCall (enumerate 0 batches);
                          batchResults = map gemini calls;
                          successfulBatches = map replyText (filter (successful jsonOk) batchResults)
                      in (calls, join [CHR 0x0A, CHR 0x0A] successfulBatches)));
                final = FinalCall (length validResults) finalInputForSummary
            in (batchCalls @ [final],
                case gemini final of
                  Inl message \<Rightarrow> Failed message
                | Inr text \<Rightarrow>
                    if jsonOk text then Summary text
                    else Failed ''Final summary response was not valid JSON'')))"


section \<open>Properties of the scheduler\<close>

lemma dateNow_mono: "dateNow w = (t, w') \<Longrightarrow> clock w \<le> t \<and> clock w' = t"
  by (auto simp: dateNow_def split: list.splits)

lemma dateNow_frame:
  "dateNow w = (t, w') \<Longrightarrow>
     queue w' = queue w \<and> activeCount w' = activeCount w \<and> maxConcurrency w' = maxConcurrency w \<and>
     minDelay w' = minDelay w \<and> lastRequestTime w' = lastRequestTime w \<and>
     running w' = running w \<and> dispatchLog w' = dispatchLog w \<and> timers w' = timers w"
  by (auto simp: dateNow_def split: list.splits)

lemma spaced_Cons: "spaced d (t # ts) \<longleftrightarrow> (ts = [] \<or> d \<le> of_int (t - hd ts)) \<and> spaced d ts"
  by (cases ts) auto

lemma process_inv: "sched_inv c d w \<Longrightarrow> sched_inv c d (process w)"
proof (induction w rule: process.induct)
  case (1 w)
  show ?case
  proof (cases "queue w = []")
    case True
    with "1.prems" show ?thesis by (subst process.simps) simp
  next
    case False
    obtain now w1 where n: "dateNow w = (now, w1)" by (cases "dateNow w")
    note f1 = dateNow_frame[OF n]
    let ?go = "activeCount w1 < maxConcurrency w1 \<and> max 0 (minDelay w1 - of_int (now - lastRequestTime w1)) = 0"
    show ?thesis
    proof (cases ?go)
      case True
      have q1: "queue w1 \<noteq> []" using False f1 by simp
      then obtain fn rest where q: "queue w1 = fn # rest" by (cases "queue w1") auto
      define w2 where "w2 = w1\<lparr>queue := rest\<rparr>"
      define w3 where "w3 = w2\<lparr>activeCount := activeCount w2 + 1\<rparr>"
      obtain t w4 where t: "dateNow w3 = (t, w4)" by (cases "dateNow w3")
      note f4 = dateNow_frame[OF t]
      have le: "now \<le> t" using dateNow_mono[OF t] dateNow_mono[OF n] by (simp add: w3_def w2_def)
      define w6 where "w6 = w4\<lparr>lastRequestTime := t, running := fn # running w4,
                                dispatchLog := t # dispatchLog w4\<rparr>"
      have eq: "process w = process w6"
        using False n True t q
        by (subst process.simps) (simp add: Let_def w3_def w2_def w6_def)
      have d: "minDelay w \<le> of_int (now - lastRequestTime w)"
        using True f1 by (simp add: max_def split: if_splits)
      have "sched_inv c d w6"
        using "1.prems" f1 f4 True le d
        by (auto simp: sched_inv_def w6_def w3_def w2_def spaced_Cons)
      moreover have "sched_inv c d w6 \<Longrightarrow> sched_inv c d (process w6)"
        using "1.IH"[OF False refl n[symmetric] refl refl True q refl refl refl
                     t[symmetric, unfolded w3_def w2_def] refl refl]
        unfolding w6_def w3_def w2_def by simp
      ultimately show ?thesis using eq by simp
    next
      case F: False
      have "process w = (if activeCount w1 < maxConcurrency w1 then w1\<lparr>timers := Suc (timers w1)\<rparr> else w1)"
        using False n F by (subst process.simps) (auto simp: Let_def)
      then show ?thesis using "1.prems" f1 by (auto simp: sched_inv_def)
    qed
  qed
qed


lemma add_inv: "sched_inv c d w \<Longrightarrow> sched_inv c d (add w)"
  unfolding add_def by (rule process_inv) (auto simp: sched_inv_def)

lemma settle_inv: "sched_inv c d w \<Longrightarrow> sched_inv c d (settle i w)"
proof (cases "i \<in> set (running w)")
  case True
  assume inv: "sched_inv c d w"
  have "length (remove1 i (running w)) = length (running w) - 1"
    using True by (simp add: length_remove1)
  moreover have "0 < length (running w)" using True by (cases "running w") auto
  ultimately have "int (length (remove1 i (running w))) = int (length (running w)) - 1"
    by linarith
  then have "sched_inv c d (w\<lparr>activeCount := activeCount w - 1, running := remove1 i (running w)\<rparr>)"
    using inv by (auto simp: sched_inv_def)
  then show ?thesis using True by (simp add: settle_def process_inv)
next
  case False
  assume "sched_inv c d w"
  with False show ?thesis by (simp add: settle_def)
qed

lemma timerFired_inv: "sched_inv c d w \<Longrightarrow> sched_inv c d (timerFired w)"
proof -
  assume inv: "sched_inv c d w"
  then have "sched_inv c d (w\<lparr>timers := timers w - 1\<rparr>)" by (auto simp: sched_inv_def)
  then show ?thesis using inv by (simp add: timerFired_def process_inv)
qed

lemma handle_inv: "sched_inv c d w \<Longrightarrow> sched_inv c d (handle w e)"
proof (cases e)
  case (Add ds)
  assume "sched_inv c d w"
  then have "sched_inv c d (w\<lparr>ticks := ds\<rparr>)" by (auto simp: sched_inv_def)
  then show ?thesis using Add by (simp add: add_inv)
next
  case (Complete i ds)
  assume "sched_inv c d w"
  then have "sched_inv c d (w\<lparr>ticks := ds\<rparr>)" by (auto simp: sched_inv_def)
  then show ?thesis using Complete by (simp add: settle_inv)
next
  case (Timer ds)
  assume "sched_inv c d w"
  then have "sched_inv c d (w\<lparr>ticks := ds\<rparr>)" by (auto simp: sched_inv_def)
  then show ?thesis using Timer by (simp add: timerFired_inv)
qed

lemma foldl_handle_inv: "sched_inv c d w \<Longrightarrow> sched_inv c d (foldl handle w evs)"
  by (induction evs arbitrary: w) (simp_all add: handle_inv)

lemma run_inv: "sched_inv c d (run c d t0 evs)"
  unfolding run_def by (rule foldl_handle_inv) (simp add: sched_inv_def newQueue_def)


lemma run_example:
  "dispatchLog (run 2 10 1000 [Add [0, 0], Add [3, 0], Add [4], Timer [5, 1], Complete 0 [20], Add [], Timer [30]])
     = [1033, 1013, 1000]"
  by code_simp

text \<open>
  C2. Whatever callbacks reach a queue with concurrency cap \<open>c\<close> (not negative) and
  minimum interval \<open>d\<close> (submissions, completions of running tasks and timers, in any
  order and at any non-decreasing clock readings, \<open>clear\<close> not being called), at most
  \<open>c\<close> tasks are in flight afterwards, and any two consecutive dispatch timestamps are
  at least \<open>d\<close> apart.
\<close>

theorem scheduler_cap_and_spacing:
  assumes "0 \<le> c"
  shows "int (length (running (run c d t0 evs))) \<le> c \<and> spaced d (dispatchLog (run c d t0 evs))"
  using run_inv[of c d t0 evs] assms by (auto simp: sched_inv_def)

theorem scheduler_cap_and_spacing_witness:
  "(0::int) \<le> 2 \<and>
   int (length (running (run 2 10 1000
      [Add [0, 0], Add [3, 0], Add [4], Timer [5, 1], Complete 0 [20], Add [], Timer [30]]))) \<le> 2 \<and>
   spaced 10 (dispatchLog (run 2 10 1000
      [Add [0, 0], Add [3, 0], Add [4], Timer [5, 1], Complete 0 [20], Add [], Timer [30]])) \<and>
   dispatchLog (run 2 10 1000
      [Add [0, 0], Add [3, 0], Add [4], Timer [5, 1], Complete 0 [20], Add [], Timer [30]])
     = [1033, 1013, 1000]"
  using scheduler_cap_and_spacing[of 2 10 1000
      "[Add [0, 0], Add [3, 0], Add [4], Timer [5, 1], Complete 0 [20], Add [], Timer [30]]"]
    run_example
  by simp

text \<open>
  C9, as the claim states it, fails: \<open>clear\<close> does not reset the last-dispatch
  timestamp. After two submissions at clock reading 1000 the first task is running, the
  second is pending and \<open>lastRequestTime\<close> is 1000; after \<open>clear\<close> it is still 1000, not
  its initial value 0.
\<close>

theorem clear_resets_timestamp_counterexample:
  "\<not> (let w = clear (run 2 10 1000 [Add [], Add []])
      in queue w = [] \<and> activeCount w = 0 \<and> lastRequestTime w = 0)"
  by code_simp

text \<open>
  C9, amended. \<open>clear\<close> empties the pending queue and sets the in-flight counter to 0;
  it leaves \<open>lastRequestTime\<close>, the cap and the minimum interval as they were, and it
  does nothing to the tasks already dispatched, the dispatch log, the clock or the
  armed timers.
\<close>

theorem clear_frame:
  "queue (clear w) = [] \<and> activeCount (clear w) = 0 \<and>
   lastRequestTime (clear w) = lastRequestTime w \<and>
   maxConcurrency (clear w) = maxConcurrency w \<and> minDelay (clear w) = minDelay w \<and>
   running (clear w) = running w \<and> dispatchLog (clear w) = dispatchLog w \<and>
   clock (clear w) = clock w \<and> timers (clear w) = timers w \<and> submitted (clear w) = submitted w"
  by (simp add: clear_def)


section \<open>Properties of the filter engine\<close>



















section \<open>Properties of the map-reduce summarizer\<close>



lemma batchesOf_step: "0 < n \<Longrightarrow> xs \<noteq> [] \<Longrightarrow> batchesOf n xs = take n xs # batchesOf n (drop n xs)"
  by (subst batchesOf.simps) simp



lemma length_batchesOf_gt: "0 < n \<Longrightarrow> n < length xs \<Longrightarrow> 2 \<le> length (batchesOf n xs)"
proof -
  assume n: "0 < n" and l: "n < length xs"
  have "xs \<noteq> []" "drop n xs \<noteq> []" using l by auto
  then show ?thesis using n
    by (simp add: batchesOf_step[of n xs] batchesOf_step[of n "drop n xs"])
qed





lemma generateSummary_large:
  assumes "BATCH_SIZE < length (filter valid results)"
  shows "fst (generateSummary jsonOk gemini results) =
           map batchCall (enumerate 0 (batchesOf BATCH_SIZE (filter valid results))) @
           [FinalCall (length (filter valid results))
              (join [CHR 0x0A, CHR 0x0A]
                 (map replyText (filter (successful jsonOk)
                    (map gemini (map batchCall (enumerate 0 (batchesOf BATCH_SIZE (filter valid results))))))))]"
proof -
  have "filter valid results \<noteq> []" using assms by auto
  then show ?thesis using assms by (simp add: generateSummary_def Let_def)
qed

lemma generateSummary_outcome:
  assumes "filter valid results \<noteq> []"
  shows "snd (generateSummary jsonOk gemini results) =
           (case gemini (last (fst (generateSummary jsonOk gemini results))) of
              Inl message \<Rightarrow> Failed message
            | Inr text \<Rightarrow> if jsonOk text then Summary text
                          else Failed ''Final summary response was not valid JSON'')"
  using assms by (simp add: generateSummary_def Let_def split: prod.splits)






text \<open>
  C8. What the program does when no batch reduction survives: with more than 25 usable
  results, every batch call failing or not parsing, and the final call answering a
  text that parses, the final reduction is called on the empty text and its answer is
  shown as the summary; no failure is reported.
\<close>

theorem generateSummary_no_surviving_batch:
  assumes "BATCH_SIZE < length (filter valid results)"
    and "\<forall>c. \<not> isFinal c \<longrightarrow> \<not> successful jsonOk (gemini c)"
    and "gemini (FinalCall (length (filter valid results)) []) = Inr text"
    and "jsonOk text"
  shows "last (fst (generateSummary jsonOk gemini results)) = FinalCall (length (filter valid results)) [] \<and>
         snd (generateSummary jsonOk gemini results) = Summary text"
proof -
  let ?cs = "map batchCall (enumerate 0 (batchesOf BATCH_SIZE (filter valid results)))"
  have "\<forall>c \<in> set ?cs. \<not> isFinal c" by (auto simp: batchCall_def)
  then have "filter (successful jsonOk) (map gemini ?cs) = []"
    using assms(2) by (simp add: filter_empty_conv)
  then have l: "last (fst (generateSummary jsonOk gemini results)) = FinalCall (length (filter valid results)) []"
    using generateSummary_large[OF assms(1), of jsonOk gemini] by simp
  have "filter valid results \<noteq> []" using assms(1) by auto
  from generateSummary_outcome[OF this, of jsonOk gemini] l assms(3,4)
  show ?thesis by simp
qed


theorem generateSummary_no_surviving_batch_witness:
  "last (fst (generateSummary (\<lambda>t. True)
      (\<lambda>c. case c of BatchCall i n t \<Rightarrow> Inl ''quota'' | FinalCall n t \<Rightarrow> Inr ''{}'')
      (replicate 26 \<lparr>insight = Some ''{}'', error = None\<rparr>))) = FinalCall 26 [] \<and>
   snd (generateSummary (\<lambda>t. True)
      (\<lambda>c. case c of BatchCall i n t \<Rightarrow> Inl ''quota'' | FinalCall n t \<Rightarrow> Inr ''{}'')
      (replicate 26 \<lparr>insight = Some ''{}'', error = None\<rparr>)) = Summary ''{}''"
proof -
  let ?rs = "replicate 26 \<lparr>insight = Some ''{}'', error = None\<rparr>"
  let ?g = "\<lambda>c. case c of BatchCall i n t \<Rightarrow> Inl ''quota'' | FinalCall n t \<Rightarrow> Inr ''{}''"
  have n: "length (filter valid ?rs) = 26" by (simp add: valid_def)
  have f: "\<forall>c. \<not> isFinal c \<longrightarrow> \<not> successful (\<lambda>t. True) (?g c)"
    by (auto simp: successful_def split: call.splits)
  show ?thesis
    using generateSummary_no_surviving_batch[of ?rs "\<lambda>t. True" ?g "''{}''"] n f
    by (simp add: BATCH_SIZE_def)
qed


section \<open>Properties of ingestion\<close>

























section \<open>Properties of the sweep-line summary\<close>

text \<open>Every parsed timestamp is a whole number of minutes.\<close>

lemma dateUTC_whole_minutes: "dateUTC y m d h mi mod 60000 = 0"
proof -
  have e: "k * 86400000 + h * 3600000 + mi * 60000 = 60000 * (k * 1440 + h * 60 + mi)"
    for k :: int
    by simp
  show ?thesis unfolding dateUTC_def Let_def e by simp
qed

lemma parseDate_whole_minutes:
  assumes "parseDate v = Some t"
  shows "t mod 60000 = 0"
proof -
  from assms have "\<exists>y mo d h mi. t = dateUTC y (mo - 1) d h mi"
    unfolding parseDate_def
    by (cases v; simp split: jsval.splits if_splits option.splits prod.splits) blast
  then show ?thesis by (auto simp only: dateUTC_whole_minutes)
qed

lemma snd_sweepStep: "snd (sweepStep (m, c) ev) = c + delta ev"
  by (simp add: sweepStep_def delta_def Let_def)

lemma counters_Cons: "counters c (ev # evs) = (c + delta ev) # counters (c + delta ev) evs"
  by (simp add: snd_sweepStep Let_def)

declare counters.simps(2) [simp del]

lemma collectRow_events:
  "i < length (rawDataStore w) \<Longrightarrow> events (collectRow a (rawDataStore w ! i)) = events a @ rowEvents w i"
  by (auto simp: collectRow_def rowEvents_def split: option.splits)

lemma collectRows_events:
  "collectRows w a ids = Inr a' \<Longrightarrow> events a' = events a @ concat (map (rowEvents w) ids)"
proof (induction ids arbitrary: a)
  case Nil
  then show ?case by simp
next
  case (Cons i ids)
  then show ?case by (auto simp: collectRow_events split: if_splits)
qed

lemma collectRows_total:
  "\<forall>i \<in> set ids. i < length (rawDataStore w) \<Longrightarrow> \<exists>a'. collectRows w a ids = Inr a'"
  by (induction ids arbitrary: a) auto

text \<open>The counter stays at or above 0 from \<open>c\<close> on.\<close>

lemma nonneg_insort_End:
  "\<forall>x \<in> set (counters c L). 0 \<le> x \<Longrightarrow> 0 \<le> c \<Longrightarrow>
   \<forall>x \<in> set (counters (c + 1) (insort_key time (Event e End) L)). 0 \<le> x"
proof (induction L arbitrary: c)
  case Nil
  then show ?case by (simp add: counters_Cons delta_def)
next
  case (Cons y ys)
  have y: "0 \<le> c + delta y" and rest: "\<forall>x \<in> set (counters (c + delta y) ys). 0 \<le> x"
    using Cons.prems(1) by (simp_all add: counters_Cons)
  show ?case
  proof (cases "e \<le> time y")
    case True
    then show ?thesis using Cons.prems by (simp add: counters_Cons delta_def)
  next
    case False
    have "\<forall>x \<in> set (counters (c + delta y + 1) (insort_key time (Event e End) ys)). 0 \<le> x"
      using Cons.IH[OF rest y] .
    then show ?thesis using False y by (simp add: counters_Cons add.commute add.left_commute)
  qed
qed

lemma nonneg_insort_pair:
  "s \<le> e \<Longrightarrow> 0 \<le> c \<Longrightarrow> \<forall>x \<in> set (counters c L). 0 \<le> x \<Longrightarrow>
   \<forall>x \<in> set (counters c (insort_key time (Event s Start) (insort_key time (Event e End) L))). 0 \<le> x"
proof (induction L arbitrary: c)
  case Nil
  then show ?case by (simp add: counters_Cons delta_def)
next
  case (Cons y ys)
  have y: "0 \<le> c + delta y" and rest: "\<forall>x \<in> set (counters (c + delta y) ys). 0 \<le> x"
    using Cons.prems(3) by (simp_all add: counters_Cons)
  show ?case
  proof (cases "e \<le> time y")
    case True
    then show ?thesis using Cons.prems by (simp add: counters_Cons delta_def)
  next
    case e: False
    show ?thesis
    proof (cases "s \<le> time y")
      case True
      have "\<forall>x \<in> set (counters (c + 1) (insort_key time (Event e End) (y # ys))). 0 \<le> x"
        using nonneg_insort_End[OF Cons.prems(3) Cons.prems(2)] .
      then show ?thesis using True e Cons.prems(2) by (simp add: counters_Cons delta_def)
    next
      case False
      have "\<forall>x \<in> set (counters (c + delta y) (insort_key time (Event s Start) (insort_key time (Event e End) ys))). 0 \<le> x"
        using Cons.IH[OF Cons.prems(1) y rest] .
      then show ?thesis using False e y by (simp add: counters_Cons)
    qed
  qed
qed

lemma nonneg_sorted_rows:
  "\<forall>i \<in> set ids. inOrder w i \<Longrightarrow>
   \<forall>x \<in> set (counters 0 (sort_key time (concat (map (rowEvents w) ids)))). 0 \<le> x"
proof (induction ids)
  case Nil
  then show ?case by simp
next
  case (Cons i ids)
  then have IH: "\<forall>x \<in> set (counters 0 (sort_key time (concat (map (rowEvents w) ids)))). 0 \<le> x"
    by simp
  show ?case
  proof (cases "rowEvents w i = []")
    case True
    then show ?thesis using IH by simp
  next
    case False
    then obtain s e where se: "rowEvents w i = [Event s Start, Event e End]" and ord: "s \<le> e"
      using Cons.prems by (auto simp: rowEvents_def inOrder_def split: option.splits)
    show ?thesis
      using nonneg_insort_pair[OF ord _ IH] by (simp add: se)
  qed
qed



text \<open>
  C3, as the claim states it, fails. The sort compares times only and is stable, so
  events of one instant stay in the order in which they were pushed: for the records
  00:00 to 00:10 and 00:10 to 00:20 the end of the first is applied before the start
  of the second, both at 00:10. And the counter can fall below 0: a record that
  finished before it was created puts its end event first.
\<close>

theorem sweep_tie_break_counterexample:
  "\<not> (case sweepEvents (timed [(''2024-01-01T00:00'', ''2024-01-01T00:10''),
                               (''2024-01-01T00:10'', ''2024-01-01T00:20'')]) [0, 1] of
        Inr evs \<Rightarrow> startsBeforeEnds evs
      | Inl e \<Rightarrow> True) \<and>
   \<not> (case sweepEvents (timed [(''2024-01-01T00:10'', ''2024-01-01T00:00'')]) [0] of
        Inr evs \<Rightarrow> list_all (\<lambda>c. 0 \<le> c) (counters 0 evs)
      | Inl e \<Rightarrow> True)"
  by code_simp


text \<open>
  C3, amended. For every list of stored row ids the sweep goes through the events in
  ascending time, events of one instant in the order in which they were pushed (row
  after row, the start of a row before its end). When every row on the list that has
  both timestamps has them in order (created not after finished), the running counter
  is never negative.
\<close>

theorem sweep_stable_and_never_negative:
  assumes "\<forall>i \<in> set rowIndexes. i < length (rawDataStore w)"
  shows "\<exists>evs. sweepEvents w rowIndexes = Inr evs \<and>
           sorted (map time evs) \<and>
           (\<forall>t. filter (\<lambda>e. time e = t) evs =
                filter (\<lambda>e. time e = t) (concat (map (rowEvents w) rowIndexes))) \<and>
           ((\<forall>i \<in> set rowIndexes. inOrder w i) \<longrightarrow> (\<forall>c \<in> set (counters 0 evs). 0 \<le> c))"
proof -
  obtain a where a: "collectRows w noEvents rowIndexes = Inr a"
    using collectRows_total[OF assms] by blast
  have ev: "events a = concat (map (rowEvents w) rowIndexes)"
    using collectRows_events[OF a] by (simp add: noEvents_def)
  have "sweepEvents w rowIndexes = Inr (sort_key time (events a))"
    using a by (simp add: sweepEvents_def sortEvents_def)
  moreover have "sorted (map time (sort_key time (events a)))" by simp
  moreover have "\<forall>t. filter (\<lambda>e. time e = t) (sort_key time (events a)) =
                     filter (\<lambda>e. time e = t) (concat (map (rowEvents w) rowIndexes))"
    by (simp add: sort_key_stable ev)
  moreover have "(\<forall>i \<in> set rowIndexes. inOrder w i) \<longrightarrow>
                 (\<forall>c \<in> set (counters 0 (sort_key time (events a))). 0 \<le> c)"
    using nonneg_sorted_rows[of rowIndexes w] by (simp add: ev)
  ultimately show ?thesis by blast
qed


theorem sweep_stable_and_never_negative_witness:
  "sweepEvents (timed [(''2024-01-01T00:00'', ''2024-01-01T00:10''),
                       (''2024-01-01T00:05'', ''2024-01-01T00:15''),
                       (''2024-01-01T00:20'', ''2024-01-01T00:30'')]) [0, 1, 2] =
     Inr [Event 1704067200000 Start, Event 1704067500000 Start, Event 1704067800000 End,
          Event 1704068100000 End, Event 1704068400000 Start, Event 1704069000000 End] \<and>
   list_all (\<lambda>c. 0 \<le> c)
     (counters 0 [Event 1704067200000 Start, Event 1704067500000 Start, Event 1704067800000 End,
          Event 1704068100000 End, Event 1704068400000 Start, Event 1704069000000 End]) \<and>
   counters 0 [Event 1704067200000 Start, Event 1704067500000 Start, Event 1704067800000 End,
          Event 1704068100000 End, Event 1704068400000 Start, Event 1704069000000 End]
     = [1, 2, 1, 0, 1, 0]"
proof -
  let ?w = "timed [(''2024-01-01T00:00'', ''2024-01-01T00:10''),
                   (''2024-01-01T00:05'', ''2024-01-01T00:15''),
                   (''2024-01-01T00:20'', ''2024-01-01T00:30'')]"
  let ?L = "[Event 1704067200000 Start, Event 1704067500000 Start, Event 1704067800000 End,
             Event 1704068100000 End, Event 1704068400000 Start, Event 1704069000000 End]"
  have ev: "sweepEvents ?w [0, 1, 2] = Inr ?L" by code_simp
  have "list_all (inOrder ?w) [0, 1, 2]" by code_simp
  then have ord: "\<forall>i \<in> set [0, 1, 2]. inOrder ?w i" by simp
  have "length (rawDataStore ?w) = 3" by code_simp
  then have rng: "\<forall>i \<in> set [0, 1, 2]. i < length (rawDataStore ?w)" by simp
  from sweep_stable_and_never_negative[OF rng] ord ev
  have "\<forall>c \<in> set (counters 0 ?L). 0 \<le> c" by auto
  then have "list_all (\<lambda>c. 0 \<le> c) (counters 0 ?L)" by (simp add: list_all_iff)
  moreover have "counters 0 ?L = [1, 2, 1, 0, 1, 0]" by code_simp
  ultimately show ?thesis using ev by simp
qed




































end
